theory Spec2Isabelle
  imports Main "HOL-Library.AList"
begin

section \<open>The calendar backend: RSVP upsert and roster synchronisation\<close>

text \<open>
  A shallow embedding of \<^verbatim>\<open>main.py\<close> (the tables and the endpoints on
  responses and users), of \<^verbatim>\<open>sync_users.py\<close> (the roster synchronisation
  script) and of \<^verbatim>\<open>backup_db\<close> of \<^verbatim>\<open>reset_db.py\<close>.
  The database is a value that every operation takes and returns; an exception is a value
  of type \<open>error\<close>; a \<^verbatim>\<open>for\<close> loop is a \<open>fold\<close> of its body over the list it
  runs through.
\<close>

subsection \<open>Tables\<close>

text \<open>
  \<^verbatim>\<open>datetime\<close> values are points of a linear order; here they are integers
  (say, microseconds since the epoch).
\<close>

type_synonym datetime = int

text \<open>
  Class \<^verbatim>\<open>User\<close>: the columns \<^verbatim>\<open>name\<close>, \<^verbatim>\<open>type\<close>,
  \<^verbatim>\<open>role\<close>, \<^verbatim>\<open>active\<close>. The primary key \<^verbatim>\<open>id\<close> is
  kept beside the row: table \<^verbatim>\<open>user\<close> is a list of pairs (id, row). The dictionaries
  that \<^verbatim>\<open>load_csv_users\<close> and \<^verbatim>\<open>load_db_users\<close> build have the same
  shape: each is keyed by the id and its value repeats that id under \<^verbatim>\<open>'id'\<close>, followed
  by the same four entries.
\<close>

record user =
  u_name :: string
  u_type :: string
  u_role :: string
  u_active :: bool

type_synonym user_dict = "(int \<times> user) list"

text \<open>Class \<^verbatim>\<open>EventResponse\<close>, with its primary key \<^verbatim>\<open>id\<close> as \<open>resp_id\<close> and
  its column \<^verbatim>\<open>note\<close> as \<open>r_note\<close>.\<close>

record response =
  resp_id :: int
  user_id :: int
  event_id :: int
  status :: string
  r_note :: "string option"
  created_at :: datetime
  updated_at :: datetime

text \<open>Class \<^verbatim>\<open>EventResponseCreate\<close>, the body of the upsert request.\<close>

record response_create =
  in_user_id :: int
  in_status :: string
  in_note :: "string option"

text \<open>
  The database \<^verbatim>\<open>calendar.db\<close>. Of table \<^verbatim>\<open>event\<close> only the primary keys
  are kept: the operations below read nothing else of an event. Table
  \<^verbatim>\<open>eventresponse\<close> is the list of its rows in insertion order. Its only key is
  \<^verbatim>\<open>id\<close>: the class declares no uniqueness constraint on
  (\<^verbatim>\<open>event_id\<close>, \<^verbatim>\<open>user_id\<close>).
\<close>

record store =
  users :: "(int \<times> user) list"
  events :: "int list"
  responses :: "response list"

record mismatch =
  m_id :: int
  csv_name :: string
  db_name :: string

datatype error =
    HTTPException nat string
  | IntegrityError
  | CsvNotFound
  | NameMismatches "mismatch list"

subsection \<open>Session primitives\<close>

text \<open>\<^verbatim>\<open>select(EventResponse).where(event_id == e & user_id == u)\<close>, then \<^verbatim>\<open>.first()\<close>.\<close>

definition first_response :: "int \<Rightarrow> int \<Rightarrow> store \<Rightarrow> response option" where
  "first_response eid uid st =
     find (\<lambda>r. event_id r = eid \<and> user_id r = uid) (responses st)"

text \<open>
  The key that the database gives a new row of \<^verbatim>\<open>eventresponse\<close>: one more than the
  largest key in the table, 1 for the empty table.
\<close>

definition next_resp_id :: "response list \<Rightarrow> int" where
  "next_resp_id rs = fold max (map resp_id rs) 0 + 1"

text \<open>
  \<^verbatim>\<open>session.add(resp); session.commit(); session.refresh(resp)\<close> for a new
  \<^verbatim>\<open>EventResponse\<close>: the insert itself. It looks at no other row.
\<close>

definition insert_response ::
  "int \<Rightarrow> int \<Rightarrow> string \<Rightarrow> string option \<Rightarrow> datetime \<Rightarrow> datetime \<Rightarrow> store \<Rightarrow> response \<times> store" where
  "insert_response uid eid s n c u st =
     (let resp = \<lparr>resp_id = next_resp_id (responses st), user_id = uid, event_id = eid,
                   status = s, r_note = n, created_at = c, updated_at = u\<rparr>
      in (resp, st\<lparr>responses := responses st @ [resp]\<rparr>))"

text \<open>
  \<^verbatim>\<open>session.add(existing); session.commit()\<close> for a loaded row: the row with that
  primary key is rewritten.
\<close>

definition update_response :: "response \<Rightarrow> store \<Rightarrow> store" where
  "update_response r st =
     st\<lparr>responses := map (\<lambda>x. if resp_id x = resp_id r then r else x) (responses st)\<rparr>"

text \<open>
  Deleting rows of table \<^verbatim>\<open>user\<close> and committing. Class \<^verbatim>\<open>User\<close> declares
  \<^verbatim>\<open>responses = Relationship(back_populates="user")\<close> with no delete cascade, and
  \<^verbatim>\<open>EventResponse.user_id\<close> is declared \<^verbatim>\<open>int\<close>, a column that is not
  nullable. When a parent row is deleted, the default of SQLModel and SQLAlchemy for such a
  relationship is to load the parent's responses and set their foreign key to NULL in the
  same flush; the column refuses NULL, the commit raises an integrity error and the
  transaction is rolled back. So the commit goes through only when no response refers to
  a deleted user, and it never changes table \<^verbatim>\<open>eventresponse\<close>.
\<close>

definition has_responses :: "store \<Rightarrow> int \<Rightarrow> bool" where
  "has_responses st uid = list_ex (\<lambda>r. user_id r = uid) (responses st)"

definition commit_user_deletes :: "int list \<Rightarrow> store \<Rightarrow> error + store" where
  "commit_user_deletes ks st =
     (if list_ex (has_responses st) ks then Inl IntegrityError
      else Inr (st\<lparr>users := filter (\<lambda>(k, u). k \<notin> set ks) (users st)\<rparr>))"

subsection \<open>The endpoints of main.py\<close>

definition status_detail :: string where
  "status_detail = ''status must be 'Yes', 'No', or 'Maybe'' @ [CHR 0x27]"

text \<open>
  \<^verbatim>\<open>create_or_update_response\<close>. The clock is read once on the update path and
  twice on the insert path (\<^verbatim>\<open>created_at=datetime.now(timezone.utc),
  updated_at=datetime.now(timezone.utc)\<close>): \<open>now1\<close> is what the first call of
  \<^verbatim>\<open>datetime.now\<close> returns, \<open>now2\<close> what the second returns.
\<close>

definition create_or_update_response ::
  "int \<Rightarrow> response_create \<Rightarrow> datetime \<Rightarrow> datetime \<Rightarrow> store \<Rightarrow> (error + response) \<times> store" where
  "create_or_update_response eid resp_in now1 now2 st =
     (if eid \<notin> set (events st) then (Inl (HTTPException 404 ''Event not found''), st)
      else if map_of (users st) (in_user_id resp_in) = None
        then (Inl (HTTPException 404 ''User not found''), st)
      else if in_status resp_in \<notin> set [''Yes'', ''No'', ''Maybe'']
        then (Inl (HTTPException 400 status_detail), st)
      else
        (case first_response eid (in_user_id resp_in) st of
           Some existing \<Rightarrow>
             (let existing' = existing\<lparr>status := in_status resp_in, r_note := in_note resp_in,
                                       updated_at := now1\<rparr>
              in (Inr existing', update_response existing' st))
         | None \<Rightarrow>
             (let (resp, st') = insert_response (in_user_id resp_in) eid (in_status resp_in)
                                  (in_note resp_in) now1 now2 st
              in (Inr resp, st'))))"

text \<open>\<^verbatim>\<open>list_responses\<close>.\<close>

definition list_responses :: "int \<Rightarrow> store \<Rightarrow> error + response list" where
  "list_responses eid st =
     (if eid \<notin> set (events st) then Inl (HTTPException 404 ''Event not found'')
      else Inr (filter (\<lambda>r. event_id r = eid) (responses st)))"

text \<open>\<^verbatim>\<open>delete_response\<close>.\<close>

definition delete_response :: "int \<Rightarrow> int \<Rightarrow> store \<Rightarrow> (error + unit) \<times> store" where
  "delete_response eid uid st =
     (if eid \<notin> set (events st) then (Inl (HTTPException 404 ''Event not found''), st)
      else
        (case first_response eid uid st of
           None \<Rightarrow> (Inl (HTTPException 404 ''Response not found''), st)
         | Some r \<Rightarrow>
             (Inr (), st\<lparr>responses := filter (\<lambda>x. resp_id x \<noteq> resp_id r) (responses st)\<rparr>)))"

text \<open>\<^verbatim>\<open>responses_summary\<close>: the three generator sums, then the counting loop.\<close>

record summary =
  yes :: nat
  no :: nat
  maybe :: nat
  mentors_attending :: nat
  students_attending :: nat

definition attending_step :: "store \<Rightarrow> response \<Rightarrow> nat \<times> nat \<Rightarrow> nat \<times> nat" where
  "attending_step st r c =
     (case c of (mentor_count, student_count) \<Rightarrow>
        if status r = ''Yes'' then
          (case map_of (users st) (user_id r) of
             Some u \<Rightarrow>
               if u_type u = ''mentor'' then (mentor_count + 1, student_count)
               else if u_type u = ''student'' then (mentor_count, student_count + 1)
               else (mentor_count, student_count)
           | None \<Rightarrow> (mentor_count, student_count))
        else (mentor_count, student_count))"

definition responses_summary :: "int \<Rightarrow> store \<Rightarrow> error + summary" where
  "responses_summary eid st =
     (if eid \<notin> set (events st) then Inl (HTTPException 404 ''Event not found'')
      else
        (let rs = filter (\<lambda>r. event_id r = eid) (responses st);
             yes_count = length (filter (\<lambda>r. status r = ''Yes'') rs);
             no_count = length (filter (\<lambda>r. status r = ''No'') rs);
             maybe_count = length (filter (\<lambda>r. status r = ''Maybe'') rs);
             (mentor_count, student_count) = fold (attending_step st) rs (0, 0)
         in Inr \<lparr>yes = yes_count, no = no_count, maybe = maybe_count,
                  mentors_attending = mentor_count, students_attending = student_count\<rparr>))"

text \<open>\<^verbatim>\<open>delete_user\<close>.\<close>

definition delete_user :: "int \<Rightarrow> store \<Rightarrow> (error + unit) \<times> store" where
  "delete_user uid st =
     (case map_of (users st) uid of
        None \<Rightarrow> (Inl (HTTPException 404 ''User not found''), st)
      | Some u \<Rightarrow>
          (case commit_user_deletes [uid] st of
             Inl e \<Rightarrow> (Inl e, st)
           | Inr st' \<Rightarrow> (Inr (), st')))"

subsection \<open>sync\_users.py\<close>

text \<open>\<^verbatim>\<open>load_db_users\<close>: the dictionary of the rows of table \<^verbatim>\<open>user\<close>.\<close>

definition load_db_users :: "store \<Rightarrow> user_dict" where
  "load_db_users st = users st"

text \<open>\<^verbatim>\<open>set(d.keys())\<close> and the three sets of ids.\<close>

definition keys :: "user_dict \<Rightarrow> int set" where
  "keys d = set (map fst d)"

definition common_ids :: "user_dict \<Rightarrow> user_dict \<Rightarrow> int set" where
  "common_ids csv_users db_users = keys csv_users \<inter> keys db_users"


definition db_only :: "user_dict \<Rightarrow> user_dict \<Rightarrow> int set" where
  "db_only csv_users db_users = keys db_users - keys csv_users"

text \<open>
  The validation phase: one pass over \<^verbatim>\<open>sorted(common_ids)\<close> that appends a mismatch
  for each id whose two names differ. (An id of \<^verbatim>\<open>common_ids\<close> is a key of both
  dictionaries, so the lookups find their entries.)
\<close>

definition mismatch_of :: "user_dict \<Rightarrow> user_dict \<Rightarrow> int \<Rightarrow> mismatch option" where
  "mismatch_of csv_users db_users k =
     (case (map_of csv_users k, map_of db_users k) of
        (Some c, Some d) \<Rightarrow>
          if u_name c \<noteq> u_name d
          then Some \<lparr>m_id = k, csv_name = u_name c, db_name = u_name d\<rparr>
          else None
      | _ \<Rightarrow> None)"

definition mismatches :: "user_dict \<Rightarrow> user_dict \<Rightarrow> mismatch list" where
  "mismatches csv_users db_users =
     List.map_filter (mismatch_of csv_users db_users)
       (sorted_list_of_set (common_ids csv_users db_users))"

text \<open>
  The calls that change the session, in the order the script makes them:
  \<^verbatim>\<open>session.delete(user)\<close>, \<^verbatim>\<open>session.add(db_user)\<close> after a change, and
  \<^verbatim>\<open>session.add(new_user)\<close>. The script prints one line for each at the same place.
\<close>

datatype op = Delete int | Update int | Insert int

text \<open>The body of the delete loop: \<^verbatim>\<open>user = session.get(User, user_id); if user: ...\<close>.\<close>

definition delete_step :: "(int \<times> user) list \<Rightarrow> int \<Rightarrow> int list \<Rightarrow> int list" where
  "delete_step tbl k pending =
     (case map_of tbl k of None \<Rightarrow> pending | Some u \<Rightarrow> pending @ [k])"

text \<open>
  The four comparisons of the update branch, in the order of the script; each assigns the
  field and sets \<^verbatim>\<open>changed\<close> when the values differ.
\<close>

definition apply_changes :: "user \<Rightarrow> user \<Rightarrow> bool \<times> user" where
  "apply_changes csv_user db_user =
     (let (changed, d) = (False, db_user);
          (changed, d) = (if u_name d \<noteq> u_name csv_user
                          then (True, d\<lparr>u_name := u_name csv_user\<rparr>) else (changed, d));
          (changed, d) = (if u_type d \<noteq> u_type csv_user
                          then (True, d\<lparr>u_type := u_type csv_user\<rparr>) else (changed, d));
          (changed, d) = (if u_role d \<noteq> u_role csv_user
                          then (True, d\<lparr>u_role := u_role csv_user\<rparr>) else (changed, d));
          (changed, d) = (if u_active d \<noteq> u_active csv_user
                          then (True, d\<lparr>u_active := u_active csv_user\<rparr>) else (changed, d))
      in (changed, d))"

text \<open>
  The state of the second loop: table \<^verbatim>\<open>user\<close> as the session sees it,
  \<^verbatim>\<open>updates_count\<close>, \<^verbatim>\<open>inserts_count\<close> and the calls made so far.
  The loop runs through the dictionary's own keys, so \<^verbatim>\<open>csv_users[user_id]\<close> finds
  its entry; the step does nothing at an id that is not a key.
\<close>

type_synonym sync_state = "(int \<times> user) list \<times> nat \<times> nat \<times> op list"

definition sync_step :: "user_dict \<Rightarrow> int \<Rightarrow> sync_state \<Rightarrow> sync_state" where
  "sync_step csv_users k s =
     (case s of (tbl, updates_count, inserts_count, log) \<Rightarrow>
        (case map_of csv_users k of
           None \<Rightarrow> s
         | Some csv_user \<Rightarrow>
             (case map_of tbl k of
                Some db_user \<Rightarrow>
                  (let (changed, d) = apply_changes csv_user db_user
                   in if changed
                      then (AList.update k d tbl, updates_count + 1, inserts_count,
                            log @ [Update k])
                      else s)
              | None \<Rightarrow>
                  (tbl @ [(k, csv_user)], updates_count, inserts_count + 1,
                   log @ [Insert k]))))"

text \<open>What the script reports: \<^verbatim>\<open>len(db_only)\<close> and the two counters.\<close>

record sync_counts =
  deleted :: nat
  updates_count :: nat
  inserts_count :: nat

text \<open>
  \<^verbatim>\<open>sync_users\<close>. The first argument is what \<^verbatim>\<open>load_csv_users\<close> reads from
  the file, \<open>None\<close> when the file does not exist. The result is the outcome
  (\<^verbatim>\<open>sys.exit(1)\<close> and an uncaught exception are errors), the database afterwards and
  the calls made on the session. The deletions are committed on their own, and only
  \<^verbatim>\<open>if db_only\<close>, that is when the sorted list \<open>gone\<close> is not empty; the updates
  and inserts are committed together at the end of the second loop.
\<close>

definition sync_users :: "user_dict option \<Rightarrow> store \<Rightarrow> (error + sync_counts) \<times> store \<times> op list" where
  "sync_users csv_file st =
     (case csv_file of
        None \<Rightarrow> (Inl CsvNotFound, st, [])
      | Some csv_users \<Rightarrow>
          (let db_users = load_db_users st;
               ms = mismatches csv_users db_users
           in if ms \<noteq> [] then (Inl (NameMismatches ms), st, [])
              else
                (let gone = sorted_list_of_set (db_only csv_users db_users);
                     pending = fold (delete_step (users st)) gone []
                 in case (if gone \<noteq> [] then commit_user_deletes pending st else Inr st) of
                      Inl e \<Rightarrow> (Inl e, st, map Delete pending)
                    | Inr st1 \<Rightarrow>
                        (case fold (sync_step csv_users) (sorted_list_of_set (keys csv_users))
                                (users st1, 0, 0, map Delete pending) of
                           (tbl, n_upd, n_ins, log) \<Rightarrow>
                             (Inr \<lparr>deleted = card (db_only csv_users db_users),
                                    updates_count = n_upd, inserts_count = n_ins\<rparr>,
                              st1\<lparr>users := tbl\<rparr>, log)))))"

subsection \<open>The scripts as the operator runs them\<close>

text \<open>
  What a script can touch: the database file, the CSV files by path (as
  \<^verbatim>\<open>load_csv_users\<close> would read them), the backup copies of the database keyed by
  the timestamp in their file name, and the lines the operator has typed on standard input.
\<close>

record world =
  w_db :: store
  w_csv :: "string \<Rightarrow> user_dict option"
  w_backups :: "(string \<times> store) list"
  w_stdin :: "string list"

text \<open>\<^verbatim>\<open>backup_db\<close> of \<^verbatim>\<open>reset_db.py\<close>; \<open>ts\<close> is the formatted time.\<close>

definition backup_db :: "string \<Rightarrow> world \<Rightarrow> world" where
  "backup_db ts w = w\<lparr>w_backups := AList.update ts (w_db w) (w_backups w)\<rparr>"

text \<open>The main block of \<^verbatim>\<open>sync_users.py\<close>; \<open>argv\<close> is \<^verbatim>\<open>sys.argv\<close>.\<close>

definition csv_path :: "string list \<Rightarrow> string" where
  "csv_path argv = (if length argv > 1 then argv ! 1 else ''./users.csv'')"

definition sync_main :: "string list \<Rightarrow> world \<Rightarrow> (error + sync_counts) \<times> world" where
  "sync_main argv w =
     (case sync_users (w_csv w (csv_path argv)) (w_db w) of
        (res, st', log) \<Rightarrow> (res, w\<lparr>w_db := st'\<rparr>))"

subsection \<open>Reachable databases\<close>

text \<open>
  The databases that calls made one after the other can produce from the empty schema.
  The last rule stands for the endpoints that write only the tables of users, events and
  event types (\<^verbatim>\<open>create_user\<close>, \<^verbatim>\<open>create_event\<close>, \<^verbatim>\<open>update_event\<close>,
  \<^verbatim>\<open>delete_event\<close>, \<^verbatim>\<open>create_event_type\<close>).
\<close>

definition empty_store :: store where
  "empty_store = \<lparr>users = [], events = [], responses = []\<rparr>"

inductive reachable :: "store \<Rightarrow> bool" where
  start: "reachable empty_store"
| upsert: "reachable st \<Longrightarrow> create_or_update_response eid resp_in now1 now2 st = (res, st')
     \<Longrightarrow> reachable st'"
| unrespond: "reachable st \<Longrightarrow> delete_response eid uid st = (res', st') \<Longrightarrow> reachable st'"
| remove_user: "reachable st \<Longrightarrow> delete_user uid st = (res', st') \<Longrightarrow> reachable st'"
| sync: "reachable st \<Longrightarrow> sync_users csv_file st = (res'', st', log) \<Longrightarrow> reachable st'"
| other_tables: "reachable st \<Longrightarrow> reachable (st\<lparr>users := us, events := es\<rparr>)"

text \<open>The rows of one (event, user) pair, and the two key properties of the table.\<close>

definition rows_for :: "int \<Rightarrow> int \<Rightarrow> store \<Rightarrow> response list" where
  "rows_for eid uid st = filter (\<lambda>r. event_id r = eid \<and> user_id r = uid) (responses st)"

definition unique_pairs :: "store \<Rightarrow> bool" where
  "unique_pairs st = distinct (map (\<lambda>r. (event_id r, user_id r)) (responses st))"

definition unique_ids :: "store \<Rightarrow> bool" where
  "unique_ids st = distinct (map resp_id (responses st))"

subsection \<open>Notions used in the statements\<close>

text \<open>The three guards of \<^verbatim>\<open>create_or_update_response\<close>, all passed.\<close>

definition valid_request :: "int \<Rightarrow> response_create \<Rightarrow> store \<Rightarrow> bool" where
  "valid_request eid resp_in st \<longleftrightarrow>
     eid \<in> set (events st) \<and> map_of (users st) (in_user_id resp_in) \<noteq> None \<and>
     in_status resp_in \<in> {''Yes'', ''No'', ''Maybe''}"

text \<open>A small database for the examples: one event, one mentor, no response yet.\<close>

definition alice :: user where
  "alice = \<lparr>u_name = ''Alice'', u_type = ''mentor'', u_role = ''coach'', u_active = True\<rparr>"

definition st_demo :: store where
  "st_demo = \<lparr>users = [(7, alice)], events = [1], responses = []\<rparr>"

definition rsvp :: "string \<Rightarrow> response_create" where
  "rsvp s = \<lparr>in_user_id = 7, in_status = s, in_note = None\<rparr>"

text \<open>Both key properties of table \<^verbatim>\<open>eventresponse\<close> together.\<close>

definition well_keyed :: "store \<Rightarrow> bool" where
  "well_keyed st \<longleftrightarrow> unique_pairs st \<and> unique_ids st"

text \<open>
  A response counts for the category \<open>t\<close>: its status is Yes, its user is in table
  \<^verbatim>\<open>user\<close> and has exactly that type.
\<close>

definition attends :: "store \<Rightarrow> string \<Rightarrow> response \<Rightarrow> bool" where
  "attends st t r \<longleftrightarrow>
     status r = ''Yes'' \<and>
     (case map_of (users st) (user_id r) of Some u \<Rightarrow> u_type u = t | None \<Rightarrow> False)"

text \<open>The row of the database differs from the entry of the CSV file in some field.\<close>

definition differs :: "user \<Rightarrow> user \<Rightarrow> bool" where
  "differs csv_user db_user \<longleftrightarrow>
     u_name db_user \<noteq> u_name csv_user \<or> u_type db_user \<noteq> u_type csv_user \<or>
     u_role db_user \<noteq> u_role csv_user \<or> u_active db_user \<noteq> u_active csv_user"

text \<open>
  What the second loop of \<^verbatim>\<open>sync_users\<close> does at the id \<open>k\<close>, told from the two
  dictionaries as they were loaded: an insert for an id the database lacks, an update for
  a row that differs, nothing for a row that agrees.
\<close>

definition pass_op :: "user_dict \<Rightarrow> user_dict \<Rightarrow> int \<Rightarrow> op option" where
  "pass_op csv_users db_users k =
     (case map_of csv_users k of
        None \<Rightarrow> None
      | Some c \<Rightarrow>
          (case map_of db_users k of
             None \<Rightarrow> Some (Insert k)
           | Some d \<Rightarrow> if differs c d then Some (Update k) else None))"

text \<open>The example database after a Yes at times 10 and 11, and after a No at 20.\<close>

definition st_yes :: store where
  "st_yes = snd (create_or_update_response 1 (rsvp ''Yes'') 10 11 st_demo)"


text \<open>
  A roster for the examples of synchronisation: the file knows the ids 1 and 2, the
  database the ids 2 and 3, and Bob's role has changed.
\<close>

definition ann :: user where
  "ann = \<lparr>u_name = ''Ann'', u_type = ''student'', u_role = ''driver'', u_active = True\<rparr>"

definition bob :: user where
  "bob = \<lparr>u_name = ''Bob'', u_type = ''student'', u_role = ''builder'', u_active = True\<rparr>"

definition carol :: user where
  "carol = \<lparr>u_name = ''Carol'', u_type = ''other'', u_role = ''parent'', u_active = False\<rparr>"

definition csv_roster :: user_dict where
  "csv_roster = [(2, bob\<lparr>u_role := ''captain''\<rparr>), (1, ann)]"

definition st_roster :: store where
  "st_roster = \<lparr>users = [(2, bob), (3, carol)], events = [1], responses = []\<rparr>"

text \<open>The file says id 5 is Alice, the database says it is Bob.\<close>

definition csv_conflict :: user_dict where
  "csv_conflict = [(5, alice)]"

definition st_conflict :: store where
  "st_conflict = \<lparr>users = [(5, bob)], events = [], responses = []\<rparr>"

text \<open>An operator's machine: the roster file in its default place, nothing typed, no copy.\<close>

definition w_demo :: world where
  "w_demo = \<lparr>w_db = st_roster,
            w_csv = (\<lambda>p. if p = ''./users.csv'' then Some csv_roster else None),
            w_backups = [], w_stdin = []\<rparr>"

text \<open>
  Responses to event 1 from a mentor, a student, a person of type other and a person who
  is not in the table, one No, and a response to another event.
\<close>

definition st_summary :: store where
  "st_summary =
     \<lparr>users = [(7, alice), (8, bob), (9, carol)], events = [1, 2],
      responses =
        [\<lparr>resp_id = 1, user_id = 7, event_id = 1, status = ''Yes'', r_note = None,
           created_at = 10, updated_at = 10\<rparr>,
         \<lparr>resp_id = 2, user_id = 8, event_id = 1, status = ''Yes'', r_note = None,
           created_at = 11, updated_at = 11\<rparr>,
         \<lparr>resp_id = 3, user_id = 9, event_id = 1, status = ''Yes'', r_note = None,
           created_at = 12, updated_at = 12\<rparr>,
         \<lparr>resp_id = 4, user_id = 10, event_id = 1, status = ''Yes'', r_note = None,
           created_at = 13, updated_at = 13\<rparr>,
         \<lparr>resp_id = 5, user_id = 11, event_id = 1, status = ''No'', r_note = Some ''away'',
           created_at = 14, updated_at = 14\<rparr>,
         \<lparr>resp_id = 6, user_id = 7, event_id = 2, status = ''Maybe'', r_note = None,
           created_at = 15, updated_at = 15\<rparr>]\<rparr>"

section \<open>The upsert of a response\<close>

subsection \<open>Keys of new rows, and rows found by their key\<close>

lemma fold_max_ge: "(a::int) \<le> fold max xs a"
  by (induction xs arbitrary: a) (auto intro: order_trans [OF max.cobounded2])

lemma fold_max_mem: "x \<in> set xs \<Longrightarrow> (x::int) \<le> fold max xs a"
proof (induction xs arbitrary: a)
  case Nil
  then show ?case by simp
next
  case (Cons y ys)
  show ?case
  proof (cases "x = y")
    case True
    have "x \<le> max y a" using True by simp
    also have "\<dots> \<le> fold max ys (max y a)" by (rule fold_max_ge)
    finally show ?thesis by simp
  next
    case False
    with Cons.prems have "x \<in> set ys" by simp
    then show ?thesis by (simp add: Cons.IH)
  qed
qed

lemma next_resp_id_fresh: "r \<in> set rs \<Longrightarrow> resp_id r < next_resp_id rs"
proof -
  assume "r \<in> set rs"
  then have "resp_id r \<in> set (map resp_id rs)" by simp
  then have "resp_id r \<le> fold max (map resp_id rs) 0" by (rule fold_max_mem)
  then show ?thesis by (simp add: next_resp_id_def)
qed

lemma next_resp_id_notin: "next_resp_id rs \<notin> resp_id ` set rs"
  using next_resp_id_fresh by fastforce

lemma find_Some_mem: "find P xs = Some x \<Longrightarrow> x \<in> set xs \<and> P x"
  by (induction xs) (auto split: if_splits)

lemma find_map_same_id:
  assumes "find P rs = Some r" and "P r'" and "f r = f r'"
  shows "find P (map (\<lambda>x. if f x = f r then r' else x) rs) = Some r'"
  using assms
  by (induction rs) (auto split: if_splits)

lemma find_append_new: "find P xs = None \<Longrightarrow> P y \<Longrightarrow> find P (xs @ [y]) = Some y"
  by (induction xs) (auto split: if_splits)


lemma map_update_by_id_key:
  assumes "distinct (map resp_id rs)" and "r \<in> set rs" and "g r' = g r"
  shows "map g (map (\<lambda>x. if resp_id x = resp_id r then r' else x) rs) = map g rs"
proof -
  have "\<And>x. x \<in> set rs \<Longrightarrow> resp_id x = resp_id r \<Longrightarrow> x = r"
    using assms(1,2) by (meson distinct_map inj_onD)
  then show ?thesis using assms(3) by (induction rs) auto
qed

lemma first_response_key:
  "first_response eid uid st = Some r \<Longrightarrow>
     r \<in> set (responses st) \<and> event_id r = eid \<and> user_id r = uid"
  unfolding first_response_def by (drule find_Some_mem) simp

subsection \<open>The two paths\<close>

lemma upsert_update_path:
  assumes "valid_request eid resp_in st"
    and "first_response eid (in_user_id resp_in) st = Some r"
  shows "create_or_update_response eid resp_in now1 now2 st =
           (Inr (r\<lparr>status := in_status resp_in, r_note := in_note resp_in, updated_at := now1\<rparr>),
            update_response (r\<lparr>status := in_status resp_in, r_note := in_note resp_in,
                                updated_at := now1\<rparr>) st)"
  using assms by (auto simp: valid_request_def create_or_update_response_def Let_def)

lemma upsert_insert_path:
  assumes "valid_request eid resp_in st"
    and "first_response eid (in_user_id resp_in) st = None"
  shows "create_or_update_response eid resp_in now1 now2 st =
           (Inr (fst (insert_response (in_user_id resp_in) eid (in_status resp_in)
                   (in_note resp_in) now1 now2 st)),
            snd (insert_response (in_user_id resp_in) eid (in_status resp_in)
                   (in_note resp_in) now1 now2 st))"
  using assms
  by (auto simp: valid_request_def create_or_update_response_def Let_def split: prod.splits)

subsection \<open>Rejected requests\<close>



subsection \<open>Accepted requests\<close>

lemma upsert_invalid:
  "\<not> valid_request eid resp_in st \<Longrightarrow>
     snd (create_or_update_response eid resp_in now1 now2 st) = st"
  by (auto simp: create_or_update_response_def valid_request_def)

lemma upsert_effect:
  assumes "valid_request eid resp_in st"
  shows "\<exists>r' st'. create_or_update_response eid resp_in now1 now2 st = (Inr r', st')
     \<and> first_response eid (in_user_id resp_in) st' = Some r'
     \<and> status r' = in_status resp_in \<and> r_note r' = in_note resp_in
     \<and> event_id r' = eid \<and> user_id r' = in_user_id resp_in
     \<and> users st' = users st \<and> events st' = events st
     \<and> (case first_response eid (in_user_id resp_in) st of
           Some r \<Rightarrow>
             r' = r\<lparr>status := in_status resp_in, r_note := in_note resp_in, updated_at := now1\<rparr>
             \<and> resp_id r' = resp_id r \<and> created_at r' = created_at r \<and> updated_at r' = now1
             \<and> responses st' = map (\<lambda>x. if resp_id x = resp_id r then r' else x) (responses st)
         | None \<Rightarrow>
             created_at r' = now1 \<and> updated_at r' = now2
             \<and> resp_id r' \<notin> resp_id ` set (responses st)
             \<and> responses st' = responses st @ [r'])"
proof (cases "first_response eid (in_user_id resp_in) st")
  case None
  let ?p = "insert_response (in_user_id resp_in) eid (in_status resp_in) (in_note resp_in)
              now1 now2 st"
  have run: "create_or_update_response eid resp_in now1 now2 st = (Inr (fst ?p), snd ?p)"
    using assms None by (rule upsert_insert_path)
  have found: "first_response eid (in_user_id resp_in) (snd ?p) = Some (fst ?p)"
    using None by (simp add: first_response_def insert_response_def Let_def find_append_new)
  have fresh: "resp_id (fst ?p) \<notin> resp_id ` set (responses st)"
    using next_resp_id_notin [of "responses st"] by (simp add: insert_response_def Let_def)
  show ?thesis
    using run found fresh None by (simp add: insert_response_def Let_def)
next
  case (Some r)
  let ?r' = "r\<lparr>status := in_status resp_in, r_note := in_note resp_in, updated_at := now1\<rparr>"
  have run: "create_or_update_response eid resp_in now1 now2 st =
      (Inr ?r', update_response ?r' st)"
    using assms Some by (rule upsert_update_path)
  have key: "event_id r = eid \<and> user_id r = in_user_id resp_in"
    using Some by (simp add: first_response_key)
  have "find (\<lambda>x. event_id x = eid \<and> user_id x = in_user_id resp_in)
          (map (\<lambda>x. if resp_id x = resp_id r then ?r' else x) (responses st)) = Some ?r'"
    using Some key unfolding first_response_def
    by (intro find_map_same_id) simp_all
  then have found: "first_response eid (in_user_id resp_in) (update_response ?r' st) = Some ?r'"
    by (simp add: first_response_def update_response_def)
  show ?thesis
    using run found key Some by (simp add: update_response_def)
qed

text \<open>The example requests, evaluated.\<close>

lemma valid_yes_demo: "valid_request 1 (rsvp ''Yes'') st_demo"
  by code_simp

lemma valid_no_yes: "valid_request 1 (rsvp ''No'') st_yes"
  by code_simp

lemma first_demo: "first_response 1 7 st_demo = None"
  by code_simp

lemma first_yes:
  "first_response 1 7 st_yes =
     Some \<lparr>resp_id = 1, user_id = 7, event_id = 1, status = ''Yes'', r_note = None,
            created_at = 10, updated_at = 11\<rparr>"
  by code_simp

lemma rsvp_sel: "in_user_id (rsvp s) = 7" "in_status (rsvp s) = s" "in_note (rsvp s) = None"
  by (simp_all add: rsvp_def)

text \<open>
  Claim C1, as amended. When the event exists, the user exists and the status is Yes, No
  or Maybe, the upsert succeeds and returns the row that a lookup of (event, user) finds
  afterwards; tables user and event are unchanged. If a row for the pair was there, it is
  the first such row with the new status and note and with \<open>updated_at\<close> set to the
  clock reading; its id and \<open>created_at\<close> are unchanged and every row with another id is
  unchanged. If no row was there, a row with a fresh id, the given status and note is
  appended, \<open>created_at\<close> being the first reading of the clock and \<open>updated_at\<close> the
  second: the two are equal only when the clock has not moved between the two readings.
\<close>

theorem upsert_overwrites_or_creates:
  assumes "valid_request eid resp_in st"
  shows "\<exists>r' st'. create_or_update_response eid resp_in now1 now2 st = (Inr r', st')
     \<and> first_response eid (in_user_id resp_in) st' = Some r'
     \<and> status r' = in_status resp_in \<and> r_note r' = in_note resp_in
     \<and> event_id r' = eid \<and> user_id r' = in_user_id resp_in
     \<and> users st' = users st \<and> events st' = events st
     \<and> (case first_response eid (in_user_id resp_in) st of
           Some r \<Rightarrow>
             r' = r\<lparr>status := in_status resp_in, r_note := in_note resp_in, updated_at := now1\<rparr>
             \<and> resp_id r' = resp_id r \<and> created_at r' = created_at r \<and> updated_at r' = now1
             \<and> responses st' = map (\<lambda>x. if resp_id x = resp_id r then r' else x) (responses st)
         | None \<Rightarrow>
             created_at r' = now1 \<and> updated_at r' = now2
             \<and> resp_id r' \<notin> resp_id ` set (responses st)
             \<and> responses st' = responses st @ [r'])"
  using assms by (rule upsert_effect)

theorem upsert_overwrites_or_creates_witness:
  "valid_request 1 (rsvp ''Yes'') st_demo \<and> valid_request 1 (rsvp ''No'') st_yes
   \<and> (\<exists>r' st'. create_or_update_response 1 (rsvp ''Yes'') 10 11 st_demo = (Inr r', st')
         \<and> created_at r' = 10 \<and> updated_at r' = 11 \<and> responses st' = responses st_demo @ [r'])
   \<and> (\<exists>r' st'. create_or_update_response 1 (rsvp ''No'') 20 21 st_yes = (Inr r', st')
         \<and> r' = \<lparr>resp_id = 1, user_id = 7, event_id = 1, status = ''No'', r_note = None,
                   created_at = 10, updated_at = 20\<rparr>)"
proof -
  have a: "\<exists>r' st'. create_or_update_response 1 (rsvp ''Yes'') 10 11 st_demo = (Inr r', st')
         \<and> created_at r' = 10 \<and> updated_at r' = 11 \<and> responses st' = responses st_demo @ [r']"
    using upsert_overwrites_or_creates [OF valid_yes_demo, of 10 11]
    by (auto simp: rsvp_sel first_demo)
  have b: "\<exists>r' st'. create_or_update_response 1 (rsvp ''No'') 20 21 st_yes = (Inr r', st')
         \<and> r' = \<lparr>resp_id = 1, user_id = 7, event_id = 1, status = ''No'', r_note = None,
                   created_at = 10, updated_at = 20\<rparr>"
    using upsert_overwrites_or_creates [OF valid_no_yes, of 20 21]
    by (auto simp: rsvp_sel first_yes)
  from a b valid_yes_demo valid_no_yes show ?thesis by blast
qed

text \<open>
  Against claim C1 as it was stated: the first response to an event, made while the clock
  moves from 10 to 11 between the two readings, is stored with \<open>created_at = 10\<close> and
  \<open>updated_at = 11\<close>.
\<close>

theorem upsert_reads_the_clock_twice:
  "create_or_update_response 1 (rsvp ''Yes'') 10 11 st_demo =
     (Inr \<lparr>resp_id = 1, user_id = 7, event_id = 1, status = ''Yes'', r_note = None,
           created_at = 10, updated_at = 11\<rparr>,
      st_demo\<lparr>responses := [\<lparr>resp_id = 1, user_id = 7, event_id = 1, status = ''Yes'',
           r_note = None, created_at = 10, updated_at = 11\<rparr>]\<rparr>)"
  by code_simp

section \<open>One row for each pair of event and user\<close>

subsection \<open>Each operation keeps the keys distinct\<close>

lemma first_response_None:
  "first_response eid uid st = None \<Longrightarrow>
     (eid, uid) \<notin> set (map (\<lambda>r. (event_id r, user_id r)) (responses st))"
  by (auto simp: first_response_def find_None_iff)

lemma upsert_well_keyed:
  assumes "well_keyed st"
  shows "well_keyed (snd (create_or_update_response eid resp_in now1 now2 st))"
proof (cases "valid_request eid resp_in st")
  case False
  then show ?thesis using assms by (simp add: upsert_invalid)
next
  case True
  show ?thesis
  proof (cases "first_response eid (in_user_id resp_in) st")
    case None
    have "(eid, in_user_id resp_in) \<notin> set (map (\<lambda>r. (event_id r, user_id r)) (responses st))"
      using None by (rule first_response_None)
    moreover have "next_resp_id (responses st) \<notin> set (map resp_id (responses st))"
      using next_resp_id_notin [of "responses st"] by simp
    ultimately show ?thesis
      using assms upsert_insert_path [OF True None, of now1 now2]
      by (simp add: well_keyed_def unique_pairs_def unique_ids_def insert_response_def Let_def)
  next
    case (Some r)
    let ?r' = "r\<lparr>status := in_status resp_in, r_note := in_note resp_in, updated_at := now1\<rparr>"
    have mem: "r \<in> set (responses st)"
      using Some by (simp add: first_response_key)
    have ids: "distinct (map resp_id (responses st))"
      using assms by (simp add: well_keyed_def unique_ids_def)
    have "map (\<lambda>r. (event_id r, user_id r))
            (map (\<lambda>x. if resp_id x = resp_id r then ?r' else x) (responses st))
          = map (\<lambda>r. (event_id r, user_id r)) (responses st)"
      using ids mem by (rule map_update_by_id_key) simp
    moreover have "map resp_id
            (map (\<lambda>x. if resp_id x = resp_id r then ?r' else x) (responses st))
          = map resp_id (responses st)"
      using ids mem by (rule map_update_by_id_key) simp
    moreover have "responses (snd (create_or_update_response eid resp_in now1 now2 st))
          = map (\<lambda>x. if resp_id x = resp_id r then ?r' else x) (responses st)"
      using upsert_update_path [OF True Some, of now1 now2] by (simp add: update_response_def)
    ultimately have "map (\<lambda>r. (event_id r, user_id r))
            (responses (snd (create_or_update_response eid resp_in now1 now2 st)))
          = map (\<lambda>r. (event_id r, user_id r)) (responses st)"
      and "map resp_id (responses (snd (create_or_update_response eid resp_in now1 now2 st)))
          = map resp_id (responses st)"
      by simp_all
    then show ?thesis
      using assms unfolding well_keyed_def unique_pairs_def unique_ids_def by simp
  qed
qed

lemma delete_response_well_keyed:
  assumes "well_keyed st"
  shows "well_keyed (snd (delete_response eid uid st))"
  using assms
  by (auto simp: delete_response_def well_keyed_def unique_pairs_def unique_ids_def
        distinct_map_filter split: option.splits)

subsection \<open>Operations on users leave the responses alone\<close>

lemma commit_user_deletes_frame:
  "commit_user_deletes ks st = Inr st' \<Longrightarrow>
     responses st' = responses st \<and> events st' = events st"
  by (auto simp: commit_user_deletes_def split: if_splits)

lemma delete_user_frame:
  "responses (snd (delete_user uid st)) = responses st
   \<and> events (snd (delete_user uid st)) = events st"
  by (auto simp: delete_user_def dest: commit_user_deletes_frame split: option.splits sum.splits)

lemma sync_users_frame:
  "responses (fst (snd (sync_users csv_file st))) = responses st
   \<and> events (fst (snd (sync_users csv_file st))) = events st"
proof (cases csv_file)
  case None
  then show ?thesis by (simp add: sync_users_def)
next
  case (Some csv_users)
  let ?db = "load_db_users st"
  let ?gone = "sorted_list_of_set (db_only csv_users ?db)"
  let ?pending = "fold (delete_step (users st)) ?gone []"
  let ?c = "if ?gone \<noteq> [] then commit_user_deletes ?pending st else Inr st"
  show ?thesis
  proof (cases "mismatches csv_users ?db = []")
    case False
    then show ?thesis using Some by (simp add: sync_users_def Let_def)
  next
    case True
    show ?thesis
    proof (cases ?c)
      case (Inl e)
      then show ?thesis using Some True by (simp add: sync_users_def Let_def)
    next
      case (Inr st1)
      then have "responses st1 = responses st \<and> events st1 = events st"
        by (auto dest: commit_user_deletes_frame split: if_splits)
      then show ?thesis
        using Some True Inr by (simp add: sync_users_def Let_def split: prod.splits)
    qed
  qed
qed

lemma well_keyed_responses:
  "responses st' = responses st \<Longrightarrow> well_keyed st' = well_keyed st"
  by (simp add: well_keyed_def unique_pairs_def unique_ids_def)

subsection \<open>The invariant of sequential use\<close>

lemma reachable_well_keyed: "reachable st \<Longrightarrow> well_keyed st"
proof (induction rule: reachable.induct)
  case start
  show ?case
    by (simp add: well_keyed_def unique_pairs_def unique_ids_def empty_store_def)
next
  case (upsert st eid resp_in now1 now2 res st')
  from upsert.IH have "well_keyed (snd (create_or_update_response eid resp_in now1 now2 st))"
    by (rule upsert_well_keyed)
  with upsert.hyps(2) show ?case by simp
next
  case (unrespond st eid uid res' st')
  from unrespond.IH have "well_keyed (snd (delete_response eid uid st))"
    by (rule delete_response_well_keyed)
  with unrespond.hyps(2) show ?case by simp
next
  case (remove_user st uid res' st')
  have "responses st' = responses st"
    using delete_user_frame [of uid st] remove_user.hyps(2) by simp
  with remove_user.IH show ?case using well_keyed_responses by blast
next
  case (sync st csv_file res'' st' log)
  have "responses st' = responses st"
    using sync_users_frame [of csv_file st] sync.hyps(2) by simp
  with sync.IH show ?case using well_keyed_responses by blast
next
  case (other_tables st us es)
  then show ?case by (simp add: well_keyed_def unique_pairs_def unique_ids_def)
qed

lemma distinct_filter_le1:
  "distinct (map f xs) \<Longrightarrow> length (filter (\<lambda>x. f x = k) xs) \<le> 1"
proof (induction xs)
  case Nil
  then show ?case by simp
next
  case (Cons x xs)
  show ?case
  proof (cases "f x = k")
    case True
    have "f x \<notin> f ` set xs" using Cons.prems by simp
    then have "filter (\<lambda>x. f x = k) xs = []"
      unfolding filter_empty_conv using True by blast
    then show ?thesis using True by simp
  next
    case False
    with Cons show ?thesis by simp
  qed
qed

lemma rows_for_key:
  "rows_for eid uid st = filter (\<lambda>r. (event_id r, user_id r) = (eid, uid)) (responses st)"
  by (simp add: rows_for_def)


lemma reachable_st_demo: "reachable st_demo"
proof -
  have "reachable (empty_store\<lparr>users := [(7, alice)], events := [1]\<rparr>)"
    using reachable.start by (rule reachable.other_tables)
  then show ?thesis by (simp add: empty_store_def st_demo_def)
qed

lemma reachable_st_yes: "reachable st_yes"
  using reachable_st_demo
  by (rule reachable.upsert
        [where res = "fst (create_or_update_response 1 (rsvp ''Yes'') 10 11 st_demo)"])
     (simp add: st_yes_def)

text \<open>
  Claim C4, as amended. In every database that calls made one after the other can reach
  from the empty schema, a pair of event and user has at most one response row. The
  upsert's own lookup before it writes is what keeps this: table eventresponse has no
  uniqueness constraint on the pair, and the insert of a row for a pair that already has
  one is accepted.
\<close>

theorem sequential_calls_keep_pairs_unique:
  "reachable st \<Longrightarrow> length (rows_for eid uid st) \<le> 1"
proof -
  assume "reachable st"
  then have "distinct (map (\<lambda>r. (event_id r, user_id r)) (responses st))"
    using reachable_well_keyed by (simp add: well_keyed_def unique_pairs_def)
  then show ?thesis
    unfolding rows_for_key by (rule distinct_filter_le1)
qed

theorem sequential_calls_keep_pairs_unique_witness:
  "reachable st_yes \<and> length (rows_for 1 7 st_yes) \<le> 1 \<and> rows_for 1 7 st_yes \<noteq> []"
proof -
  have "rows_for 1 7 st_yes \<noteq> []" by code_simp
  then show ?thesis
    using reachable_st_yes sequential_calls_keep_pairs_unique [OF reachable_st_yes, of 1 7]
    by simp
qed

text \<open>
  Against claim C4 as it was stated: two requests for the same pair that both make their
  lookup in the example database find no row, and the two inserts that follow both go
  through; the table then holds two rows for the pair.
\<close>

theorem store_accepts_second_row_for_pair:
  "first_response 1 7 st_demo = None
   \<and> length (rows_for 1 7
        (snd (insert_response 7 1 ''No'' None 12 13
           (snd (insert_response 7 1 ''Yes'' None 10 11 st_demo))))) = 2"
  by code_simp

subsection \<open>Two upserts in a row\<close>



section \<open>The summary of an event's responses\<close>

lemma fold_attending:
  "fold (attending_step st) rs (m, s) =
     (m + length (filter (attends st ''mentor'') rs),
      s + length (filter (attends st ''student'') rs))"
  by (induction rs arbitrary: m s)
     (auto simp: attending_step_def attends_def split: option.splits)

lemma yes_partition:
  "length (filter (\<lambda>r. status r = ''Yes'') rs) =
     length (filter (attends st ''mentor'') rs) + length (filter (attends st ''student'') rs)
     + length (filter (\<lambda>r. status r = ''Yes'' \<and> \<not> attends st ''mentor'' r
                              \<and> \<not> attends st ''student'' r) rs)"
  by (induction rs) (auto simp: attends_def split: option.splits)

lemma responses_summary_counts:
  assumes "eid \<in> set (events st)"
  shows "responses_summary eid st =
     Inr \<lparr>yes = length (filter (\<lambda>r. status r = ''Yes'')
                   (filter (\<lambda>r. event_id r = eid) (responses st))),
          no = length (filter (\<lambda>r. status r = ''No'')
                   (filter (\<lambda>r. event_id r = eid) (responses st))),
          maybe = length (filter (\<lambda>r. status r = ''Maybe'')
                   (filter (\<lambda>r. event_id r = eid) (responses st))),
          mentors_attending = length (filter (attends st ''mentor'')
                   (filter (\<lambda>r. event_id r = eid) (responses st))),
          students_attending = length (filter (attends st ''student'')
                   (filter (\<lambda>r. event_id r = eid) (responses st)))\<rparr>"
  using assms by (simp add: responses_summary_def Let_def fold_attending)

text \<open>
  Claim C9. For an event that exists the summary is a record of the five counts. Yes, no
  and maybe count the event's responses with that status. A response counts as a mentor
  or a student attending exactly when its status is Yes, its user is in table user and
  the user's type is exactly that word. So the Yes responses split into the mentors, the
  students and those whose user is missing or of another type, which are counted in yes
  alone.
\<close>

theorem summary_counts_by_status_and_category:
  assumes "eid \<in> set (events st)"
  shows "\<exists>s. responses_summary eid st = Inr s
     \<and> yes s = length (filter (\<lambda>r. event_id r = eid \<and> status r = ''Yes'') (responses st))
     \<and> no s = length (filter (\<lambda>r. event_id r = eid \<and> status r = ''No'') (responses st))
     \<and> maybe s = length (filter (\<lambda>r. event_id r = eid \<and> status r = ''Maybe'') (responses st))
     \<and> mentors_attending s =
         length (filter (\<lambda>r. event_id r = eid \<and> attends st ''mentor'' r) (responses st))
     \<and> students_attending s =
         length (filter (\<lambda>r. event_id r = eid \<and> attends st ''student'' r) (responses st))
     \<and> yes s = mentors_attending s + students_attending s
         + length (filter (\<lambda>r. event_id r = eid \<and> status r = ''Yes''
                               \<and> \<not> attends st ''mentor'' r \<and> \<not> attends st ''student'' r)
             (responses st))"
proof -
  let ?rs = "filter (\<lambda>r. event_id r = eid) (responses st)"
  have flt: "\<And>P. filter P ?rs = filter (\<lambda>r. event_id r = eid \<and> P r) (responses st)"
    by (simp add: conj_commute)
  show ?thesis
    using responses_summary_counts [OF assms] yes_partition [of ?rs st]
    by (simp add: flt conj_commute)
qed

theorem summary_counts_by_status_and_category_witness:
  "1 \<in> set (events st_summary)
   \<and> responses_summary 1 st_summary =
       Inr \<lparr>yes = 4, no = 1, maybe = 0, mentors_attending = 1, students_attending = 1\<rparr>
   \<and> length (filter (\<lambda>r. event_id r = 1 \<and> status r = ''Yes'' \<and> \<not> attends st_summary ''mentor'' r
                            \<and> \<not> attends st_summary ''student'' r) (responses st_summary)) = 2"
proof -
  have ev: "1 \<in> set (events st_summary)" by (simp add: st_summary_def)
  have run: "responses_summary 1 st_summary =
       Inr \<lparr>yes = 4, no = 1, maybe = 0, mentors_attending = 1, students_attending = 1\<rparr>"
    by code_simp
  from summary_counts_by_status_and_category [OF ev] run
  show ?thesis using ev by auto
qed

section \<open>Synchronising the roster\<close>

subsection \<open>One step and one pass of the second loop\<close>

lemma keys_dom: "keys d = dom (map_of d)"
  by (simp add: keys_def dom_map_of_conv_image_fst)

lemma finite_keys: "finite (keys d)"
  by (simp add: keys_def)

lemma differs_iff: "differs c d \<longleftrightarrow> d \<noteq> (c::user)"
  by (cases c, cases d) (auto simp: differs_def)

lemma apply_changes_eq: "apply_changes c d = (differs c d, c)"
  by (cases c, cases d) (auto simp: apply_changes_def differs_def)

lemma map_of_append_new:
  "map_of tbl k = None \<Longrightarrow> map_of (tbl @ [(k, c)]) = (map_of tbl)(k \<mapsto> c)"
  by (rule ext) (auto simp: map_add_def split: option.splits)

lemma pass_op_cong:
  "map_of t1 k = map_of t2 k \<Longrightarrow> pass_op csv t1 k = pass_op csv t2 k"
  by (auto simp: pass_op_def split: option.splits)

lemma map_filter_cong:
  "(\<And>x. x \<in> set xs \<Longrightarrow> f x = g x) \<Longrightarrow> List.map_filter f xs = List.map_filter g xs"
  by (induction xs) (auto simp: List.map_filter_simps split: option.splits)

lemma sync_step_effect:
  assumes "map_of csv k = Some c"
  shows "\<exists>tbl'. sync_step csv k (tbl, u, i, log) =
           (tbl', u + (if pass_op csv tbl k = Some (Update k) then 1 else 0),
                  i + (if map_of tbl k = None then 1 else 0),
                  log @ (case pass_op csv tbl k of None \<Rightarrow> [] | Some x \<Rightarrow> [x]))
         \<and> map_of tbl' = (map_of tbl)(k \<mapsto> c)"
proof (cases "map_of tbl k")
  case None
  then show ?thesis
    using assms map_of_append_new [OF None, of c]
    by (simp add: sync_step_def pass_op_def del: map_of_append)
next
  case (Some d)
  show ?thesis
  proof (cases "differs c d")
    case True
    then show ?thesis
      using assms Some
      by (simp add: sync_step_def pass_op_def apply_changes_eq update_conv')
  next
    case False
    then have "d = c" by (simp add: differs_iff)
    then have "(map_of tbl)(k \<mapsto> c) = map_of tbl"
      using Some by (simp add: map_upd_triv)
    then show ?thesis
      using assms Some False
      by (simp add: sync_step_def pass_op_def apply_changes_eq)
  qed
qed

lemma sync_pass:
  assumes "distinct ks" and "\<forall>k\<in>set ks. map_of csv k \<noteq> None"
  shows "\<exists>tbl'. fold (sync_step csv) ks (tbl, u, i, log) =
           (tbl', u + length (filter (\<lambda>k. pass_op csv tbl k = Some (Update k)) ks),
                  i + length (filter (\<lambda>k. map_of tbl k = None) ks),
                  log @ List.map_filter (pass_op csv tbl) ks)
         \<and> map_of tbl' = (\<lambda>k. if k \<in> set ks then map_of csv k else map_of tbl k)"
  using assms
proof (induction ks arbitrary: tbl u i log)
  case Nil
  then show ?case by (simp add: List.map_filter_simps)
next
  case (Cons k ks)
  from Cons.prems obtain c where c: "map_of csv k = Some c" by auto
  from sync_step_effect [OF c, of tbl u i log] obtain tbl1 where
    step: "sync_step csv k (tbl, u, i, log) =
           (tbl1, u + (if pass_op csv tbl k = Some (Update k) then 1 else 0),
                  i + (if map_of tbl k = None then 1 else 0),
                  log @ (case pass_op csv tbl k of None \<Rightarrow> [] | Some x \<Rightarrow> [x]))"
    and tbl1: "map_of tbl1 = (map_of tbl)(k \<mapsto> c)"
    by blast
  have rest: "distinct ks" "\<forall>k\<in>set ks. map_of csv k \<noteq> None" and fresh: "k \<notin> set ks"
    using Cons.prems by auto
  have same: "\<And>j. j \<in> set ks \<Longrightarrow> map_of tbl1 j = map_of tbl j"
    using tbl1 fresh by auto
  have same_op: "\<And>j. j \<in> set ks \<Longrightarrow> pass_op csv tbl1 j = pass_op csv tbl j"
    by (rule pass_op_cong) (rule same)
  have f1: "filter (\<lambda>j. pass_op csv tbl1 j = Some (Update j)) ks
          = filter (\<lambda>j. pass_op csv tbl j = Some (Update j)) ks"
    by (rule filter_cong) (simp_all add: same_op)
  have f2: "filter (\<lambda>j. map_of tbl1 j = None) ks = filter (\<lambda>j. map_of tbl j = None) ks"
    by (rule filter_cong) (simp_all add: same)
  have f3: "List.map_filter (pass_op csv tbl1) ks = List.map_filter (pass_op csv tbl) ks"
    by (rule map_filter_cong) (rule same_op)
  let ?u1 = "u + (if pass_op csv tbl k = Some (Update k) then 1 else 0)"
  let ?i1 = "i + (if map_of tbl k = None then 1 else 0)"
  let ?log1 = "log @ (case pass_op csv tbl k of None \<Rightarrow> [] | Some x \<Rightarrow> [x])"
  from Cons.IH [OF rest, of tbl1 ?u1 ?i1 ?log1] obtain tbl' where
    run: "fold (sync_step csv) ks (tbl1, ?u1, ?i1, ?log1) =
           (tbl', ?u1 + length (filter (\<lambda>k. pass_op csv tbl1 k = Some (Update k)) ks),
                  ?i1 + length (filter (\<lambda>k. map_of tbl1 k = None) ks),
                  ?log1 @ List.map_filter (pass_op csv tbl1) ks)"
    and tbl': "map_of tbl' = (\<lambda>k. if k \<in> set ks then map_of csv k else map_of tbl1 k)"
    by blast
  have m: "map_of tbl' = (\<lambda>j. if j \<in> set (k # ks) then map_of csv j else map_of tbl j)"
    unfolding tbl' tbl1 using c by auto
  have "fold (sync_step csv) (k # ks) (tbl, u, i, log) =
           (tbl', u + length (filter (\<lambda>k. pass_op csv tbl k = Some (Update k)) (k # ks)),
                  i + length (filter (\<lambda>k. map_of tbl k = None) (k # ks)),
                  log @ List.map_filter (pass_op csv tbl) (k # ks))"
    using step run unfolding f1 f2 f3
    by (simp add: List.map_filter_simps split: option.splits)
  with m show ?case by blast
qed

subsection \<open>The delete phase and the three outcomes\<close>

lemma delete_loop:
  "fold (delete_step tbl) ks acc = acc @ filter (\<lambda>k. map_of tbl k \<noteq> None) ks"
  by (induction ks arbitrary: acc) (auto simp: delete_step_def split: option.splits)

lemma set_gone: "set (sorted_list_of_set (db_only csv db)) = db_only csv db"
  by (simp add: db_only_def finite_keys)

lemma set_sorted_keys: "set (sorted_list_of_set (keys csv)) = keys csv"
  by (simp add: finite_keys)

lemma pending_is_gone:
  "fold (delete_step db) (sorted_list_of_set (db_only csv db)) [] =
     sorted_list_of_set (db_only csv db)"
proof -
  have "\<forall>k\<in>set (sorted_list_of_set (db_only csv db)). map_of db k \<noteq> None"
    unfolding set_gone by (auto simp: db_only_def keys_dom)
  then show ?thesis by (simp add: delete_loop)
qed

lemma map_of_filter_keys:
  "map_of (filter (\<lambda>(k, u). k \<notin> S) tbl) j = (if j \<in> S then None else map_of tbl j)"
  by (induction tbl) auto

lemma commit_guard:
  "(if gone \<noteq> [] then commit_user_deletes gone st else Inr st) =
     (if list_ex (has_responses st) gone then Inl IntegrityError
      else Inr (st\<lparr>users := filter (\<lambda>(k, u). k \<notin> set gone) (users st)\<rparr>))"
  by (cases gone) (simp_all add: commit_user_deletes_def)

lemma sync_users_unfold:
  "sync_users (Some csv) st =
     (if mismatches csv (users st) \<noteq> []
      then (Inl (NameMismatches (mismatches csv (users st))), st, [])
      else
        (case (if list_ex (has_responses st) (sorted_list_of_set (db_only csv (users st)))
               then Inl IntegrityError
               else Inr (st\<lparr>users := filter (\<lambda>(k, u). k \<notin> set (sorted_list_of_set (db_only csv (users st))))
                                           (users st)\<rparr>)) of
           Inl e \<Rightarrow> (Inl e, st, map Delete (sorted_list_of_set (db_only csv (users st))))
         | Inr st1 \<Rightarrow>
             (case fold (sync_step csv) (sorted_list_of_set (keys csv))
                     (users st1, 0, 0, map Delete (sorted_list_of_set (db_only csv (users st)))) of
                (tbl, n_upd, n_ins, log) \<Rightarrow>
                  (Inr \<lparr>deleted = card (db_only csv (users st)),
                         updates_count = n_upd, inserts_count = n_ins\<rparr>,
                   st1\<lparr>users := tbl\<rparr>, log))))"
  unfolding sync_users_def load_db_users_def Let_def pending_is_gone commit_guard
  by simp

lemma sync_users_mismatch:
  "mismatches csv (users st) \<noteq> [] \<Longrightarrow>
     sync_users (Some csv) st = (Inl (NameMismatches (mismatches csv (users st))), st, [])"
  by (simp add: sync_users_unfold)

lemma sync_users_blocked:
  assumes "mismatches csv (users st) = []"
    and "list_ex (has_responses st) (sorted_list_of_set (db_only csv (users st)))"
  shows "sync_users (Some csv) st =
           (Inl IntegrityError, st, map Delete (sorted_list_of_set (db_only csv (users st))))"
  using assms by (simp add: sync_users_unfold)

lemma sync_users_success:
  assumes "mismatches csv (users st) = []"
    and "\<not> list_ex (has_responses st) (sorted_list_of_set (db_only csv (users st)))"
  shows "\<exists>tbl. sync_users (Some csv) st =
           (Inr \<lparr>deleted = card (db_only csv (users st)),
                 updates_count = length (filter (\<lambda>k. pass_op csv (users st) k = Some (Update k))
                                           (sorted_list_of_set (keys csv))),
                 inserts_count = length (filter (\<lambda>k. map_of (users st) k = None)
                                           (sorted_list_of_set (keys csv)))\<rparr>,
            st\<lparr>users := tbl\<rparr>,
            map Delete (sorted_list_of_set (db_only csv (users st)))
              @ List.map_filter (pass_op csv (users st)) (sorted_list_of_set (keys csv)))
         \<and> map_of tbl = map_of csv"
proof -
  let ?db = "users st"
  let ?gone = "sorted_list_of_set (db_only csv ?db)"
  let ?ks = "sorted_list_of_set (keys csv)"
  let ?us1 = "filter (\<lambda>(k, u). k \<notin> set ?gone) ?db"
  have ks: "distinct ?ks" "\<forall>k\<in>set ?ks. map_of csv k \<noteq> None"
    unfolding set_sorted_keys by (auto simp: keys_dom)
  have us1: "\<And>j. map_of ?us1 j = (if j \<in> db_only csv ?db then None else map_of ?db j)"
    unfolding map_of_filter_keys set_gone ..
  have same: "\<And>j. j \<in> set ?ks \<Longrightarrow> map_of ?us1 j = map_of ?db j"
    unfolding us1 set_sorted_keys by (simp add: db_only_def)
  have same_op: "\<And>j. j \<in> set ?ks \<Longrightarrow> pass_op csv ?us1 j = pass_op csv ?db j"
    by (rule pass_op_cong) (rule same)
  have f1: "filter (\<lambda>j. pass_op csv ?us1 j = Some (Update j)) ?ks
          = filter (\<lambda>j. pass_op csv ?db j = Some (Update j)) ?ks"
    by (rule filter_cong) (simp_all add: same_op)
  have f2: "filter (\<lambda>j. map_of ?us1 j = None) ?ks = filter (\<lambda>j. map_of ?db j = None) ?ks"
    by (rule filter_cong) (simp_all add: same)
  have f3: "List.map_filter (pass_op csv ?us1) ?ks = List.map_filter (pass_op csv ?db) ?ks"
    by (rule map_filter_cong) (rule same_op)
  from sync_pass [OF ks, of ?us1 0 0 "map Delete ?gone"] obtain tbl where
    run: "fold (sync_step csv) ?ks (?us1, 0, 0, map Delete ?gone) =
           (tbl, 0 + length (filter (\<lambda>k. pass_op csv ?us1 k = Some (Update k)) ?ks),
                 0 + length (filter (\<lambda>k. map_of ?us1 k = None) ?ks),
                 map Delete ?gone @ List.map_filter (pass_op csv ?us1) ?ks)"
    and tbl: "map_of tbl = (\<lambda>k. if k \<in> set ?ks then map_of csv k else map_of ?us1 k)"
    by blast
  have "map_of tbl j = map_of csv j" for j
  proof (cases "j \<in> keys csv")
    case True
    then show ?thesis by (simp add: tbl set_sorted_keys)
  next
    case False
    then have "map_of csv j = None" by (auto simp: keys_dom)
    moreover have "map_of ?us1 j = None"
      unfolding us1 using False by (auto simp: db_only_def keys_dom)
    ultimately show ?thesis using False by (simp add: tbl set_sorted_keys)
  qed
  then have m: "map_of tbl = map_of csv" by (rule ext)
  have "sync_users (Some csv) st =
           (Inr \<lparr>deleted = card (db_only csv ?db),
                 updates_count = length (filter (\<lambda>k. pass_op csv ?db k = Some (Update k)) ?ks),
                 inserts_count = length (filter (\<lambda>k. map_of ?db k = None) ?ks)\<rparr>,
            st\<lparr>users := tbl\<rparr>,
            map Delete ?gone @ List.map_filter (pass_op csv ?db) ?ks)"
    using assms run unfolding f1 f2 f3 by (simp add: sync_users_unfold)
  with m show ?thesis by blast
qed

lemma map_filter_empty:
  "(\<And>x. x \<in> set xs \<Longrightarrow> f x = None) \<Longrightarrow> List.map_filter f xs = []"
  by (induction xs) (auto simp: List.map_filter_simps)

lemma map_filter_mem:
  "x \<in> set xs \<Longrightarrow> f x = Some y \<Longrightarrow> y \<in> set (List.map_filter f xs)"
  by (induction xs) (auto simp: List.map_filter_simps split: option.splits)

lemma set_sorted_common:
  "set (sorted_list_of_set (common_ids csv db)) = common_ids csv db"
  by (simp add: common_ids_def finite_keys)

lemma mismatch_ids:
  "map m_id (mismatches csv db) =
     filter (\<lambda>k. mismatch_of csv db k \<noteq> None) (sorted_list_of_set (common_ids csv db))"
proof -
  have "\<And>k y. mismatch_of csv db k = Some y \<Longrightarrow> m_id y = k"
    by (auto simp: mismatch_of_def split: option.splits if_splits)
  then have "\<And>ks. map m_id (List.map_filter (mismatch_of csv db) ks) =
     filter (\<lambda>k. mismatch_of csv db k \<noteq> None) ks"
    subgoal for ks
      by (induction ks) (auto simp: List.map_filter_simps split: option.splits)
    done
  then show ?thesis by (simp add: mismatches_def)
qed

subsection \<open>Name mismatches\<close>

text \<open>
  Claim C3. When some id is a key of both dictionaries and its two names differ,
  \<^verbatim>\<open>sync_users\<close> stops with the list of mismatches before it opens the session:
  the database is unchanged and no call was made on a session. The list has the entry
  (id, name in the file, name in the database) of that id, whichever mismatching id it
  is, and its entries are in ascending order of id, one for an id.
\<close>

theorem name_mismatch_aborts_sync:
  assumes "map_of csv k = Some c" and "map_of (load_db_users st) k = Some d"
    and "u_name c \<noteq> u_name d"
  shows "k \<in> common_ids csv (load_db_users st)
     \<and> sync_users (Some csv) st =
         (Inl (NameMismatches (mismatches csv (load_db_users st))), st, [])
     \<and> \<lparr>m_id = k, csv_name = u_name c, db_name = u_name d\<rparr>
         \<in> set (mismatches csv (load_db_users st))
     \<and> sorted (map m_id (mismatches csv (load_db_users st)))
     \<and> distinct (map m_id (mismatches csv (load_db_users st)))"
proof -
  let ?db = "load_db_users st"
  have common: "k \<in> common_ids csv ?db"
    using assms(1,2) by (auto simp: common_ids_def keys_dom)
  have "mismatch_of csv ?db k = Some \<lparr>m_id = k, csv_name = u_name c, db_name = u_name d\<rparr>"
    using assms by (simp add: mismatch_of_def)
  with common have mem: "\<lparr>m_id = k, csv_name = u_name c, db_name = u_name d\<rparr>
      \<in> set (mismatches csv ?db)"
    unfolding mismatches_def by (intro map_filter_mem [where x = k]) (simp_all add: set_sorted_common)
  then have "mismatches csv (users st) \<noteq> []"
    by (auto simp: load_db_users_def)
  then have run: "sync_users (Some csv) st = (Inl (NameMismatches (mismatches csv ?db)), st, [])"
    by (simp add: sync_users_mismatch load_db_users_def)
  have "sorted (map m_id (mismatches csv ?db))" and "distinct (map m_id (mismatches csv ?db))"
    unfolding mismatch_ids by (simp_all add: sorted_wrt_filter)
  with common run mem show ?thesis by simp
qed

theorem name_mismatch_aborts_sync_witness:
  "map_of csv_conflict 5 = Some alice \<and> map_of (load_db_users st_conflict) 5 = Some bob
   \<and> u_name alice \<noteq> u_name bob
   \<and> sync_users (Some csv_conflict) st_conflict =
       (Inl (NameMismatches (mismatches csv_conflict (load_db_users st_conflict))), st_conflict, [])
   \<and> \<lparr>m_id = 5, csv_name = ''Alice'', db_name = ''Bob''\<rparr>
       \<in> set (mismatches csv_conflict (load_db_users st_conflict))"
proof -
  have a: "map_of csv_conflict 5 = Some alice"
    by (simp add: csv_conflict_def)
  have b: "map_of (load_db_users st_conflict) 5 = Some bob"
    by (simp add: load_db_users_def st_conflict_def)
  have c: "u_name alice \<noteq> u_name bob"
    by (simp add: alice_def bob_def)
  have n: "u_name alice = ''Alice''" "u_name bob = ''Bob''"
    by (simp_all add: alice_def bob_def)
  from name_mismatch_aborts_sync [OF a b c] a b c
  show ?thesis unfolding n by blast
qed

subsection \<open>A roster that is already in the database\<close>

lemma sync_step_noop:
  "map_of csv k = Some c \<Longrightarrow> map_of tbl k = Some c \<Longrightarrow>
     sync_step csv k (tbl, u, i, log) = (tbl, u, i, log)"
  by (simp add: sync_step_def apply_changes_eq differs_iff)

lemma fold_noop: "(\<And>x. x \<in> set xs \<Longrightarrow> f x s = s) \<Longrightarrow> fold f xs s = s"
  by (induction xs) simp_all

lemma sync_users_identical:
  assumes "map_of csv = map_of (users st)"
  shows "sync_users (Some csv) st =
           (Inr \<lparr>deleted = 0, updates_count = 0, inserts_count = 0\<rparr>, st, [])"
proof -
  let ?db = "users st"
  have k: "keys csv = keys ?db" using assms by (simp add: keys_dom)
  then have none: "db_only csv ?db = {}" by (simp add: db_only_def)
  have "mismatch_of csv ?db j = None" for j
    by (simp add: mismatch_of_def assms split: option.splits)
  then have ms: "mismatches csv ?db = []"
    by (simp add: mismatches_def map_filter_empty)
  have "sync_step csv j (?db, 0, 0, []) = (?db, 0, 0, [])"
    if "j \<in> set (sorted_list_of_set (keys csv))" for j
  proof -
    from that obtain c where "map_of csv j = Some c"
      unfolding set_sorted_keys by (auto simp: keys_dom)
    then show ?thesis using assms by (auto intro: sync_step_noop)
  qed
  then have "fold (sync_step csv) (sorted_list_of_set (keys csv)) (?db, 0, 0, []) = (?db, 0, 0, [])"
    by (rule fold_noop)
  then show ?thesis
    by (simp add: sync_users_unfold ms none)
qed

lemma sync_users_outcomes:
  obtains (mismatch) "mismatches csv (users st) \<noteq> []"
      "sync_users (Some csv) st = (Inl (NameMismatches (mismatches csv (users st))), st, [])"
  | (blocked) "mismatches csv (users st) = []"
      "list_ex (has_responses st) (sorted_list_of_set (db_only csv (users st)))"
      "sync_users (Some csv) st =
         (Inl IntegrityError, st, map Delete (sorted_list_of_set (db_only csv (users st))))"
  | (success) tbl where "mismatches csv (users st) = []"
      "\<not> list_ex (has_responses st) (sorted_list_of_set (db_only csv (users st)))"
      "sync_users (Some csv) st =
           (Inr \<lparr>deleted = card (db_only csv (users st)),
                 updates_count = length (filter (\<lambda>k. pass_op csv (users st) k = Some (Update k))
                                           (sorted_list_of_set (keys csv))),
                 inserts_count = length (filter (\<lambda>k. map_of (users st) k = None)
                                           (sorted_list_of_set (keys csv)))\<rparr>,
            st\<lparr>users := tbl\<rparr>,
            map Delete (sorted_list_of_set (db_only csv (users st)))
              @ List.map_filter (pass_op csv (users st)) (sorted_list_of_set (keys csv)))"
      "map_of tbl = map_of csv"
  using sync_users_mismatch [of csv st] sync_users_blocked [of csv st]
    sync_users_success [of csv st]
  by blast

text \<open>
  Claim C7. If the dictionary read from the file and table user agree on every id and
  every field, \<^verbatim>\<open>sync_users\<close> reports no deletion, no update and no insert, makes no
  call on the session and returns the database it was given. And whatever the first run
  does, a second run on its result with the same file leaves that result as it is; when
  the first run succeeded the second one reports three zeros.
\<close>

theorem sync_of_identical_roster_is_noop:
  "(map_of csv = map_of (users st) \<longrightarrow>
      sync_users (Some csv) st =
        (Inr \<lparr>deleted = 0, updates_count = 0, inserts_count = 0\<rparr>, st, []))
   \<and> fst (snd (sync_users (Some csv) (fst (snd (sync_users (Some csv) st)))))
       = fst (snd (sync_users (Some csv) st))
   \<and> (\<forall>c. fst (sync_users (Some csv) st) = Inr c \<longrightarrow>
        sync_users (Some csv) (fst (snd (sync_users (Some csv) st))) =
          (Inr \<lparr>deleted = 0, updates_count = 0, inserts_count = 0\<rparr>,
           fst (snd (sync_users (Some csv) st)), []))"
proof -
  have same: "map_of csv = map_of (users st) \<longrightarrow>
      sync_users (Some csv) st =
        (Inr \<lparr>deleted = 0, updates_count = 0, inserts_count = 0\<rparr>, st, [])"
    using sync_users_identical by blast
  have again: "fst (snd (sync_users (Some csv) (fst (snd (sync_users (Some csv) st)))))
       = fst (snd (sync_users (Some csv) st))
   \<and> (\<forall>c. fst (sync_users (Some csv) st) = Inr c \<longrightarrow>
        sync_users (Some csv) (fst (snd (sync_users (Some csv) st))) =
          (Inr \<lparr>deleted = 0, updates_count = 0, inserts_count = 0\<rparr>,
           fst (snd (sync_users (Some csv) st)), []))"
  proof (cases rule: sync_users_outcomes [of csv st])
    case mismatch
    then show ?thesis by simp
  next
    case blocked
    then show ?thesis by simp
  next
    case (success tbl)
    have "sync_users (Some csv) (st\<lparr>users := tbl\<rparr>) =
        (Inr \<lparr>deleted = 0, updates_count = 0, inserts_count = 0\<rparr>, st\<lparr>users := tbl\<rparr>, [])"
      by (rule sync_users_identical) (simp add: success(4))
    then show ?thesis using success(3) by simp
  qed
  from same again show ?thesis by blast
qed

theorem sync_of_identical_roster_is_noop_witness:
  "sync_users (Some (users st_roster)) st_roster =
     (Inr \<lparr>deleted = 0, updates_count = 0, inserts_count = 0\<rparr>, st_roster, [])
   \<and> fst (sync_users (Some csv_roster) st_roster) =
       Inr \<lparr>deleted = 1, updates_count = 1, inserts_count = 1\<rparr>
   \<and> sync_users (Some csv_roster) (fst (snd (sync_users (Some csv_roster) st_roster))) =
       (Inr \<lparr>deleted = 0, updates_count = 0, inserts_count = 0\<rparr>,
        fst (snd (sync_users (Some csv_roster) st_roster)), [])"
proof -
  have first: "fst (sync_users (Some csv_roster) st_roster) =
       Inr \<lparr>deleted = 1, updates_count = 1, inserts_count = 1\<rparr>"
    by code_simp
  show ?thesis
    using first sync_of_identical_roster_is_noop [of "users st_roster" st_roster]
      sync_of_identical_roster_is_noop [of csv_roster st_roster]
    by blast
qed

subsection \<open>Deletions, then one pass in ascending order of id\<close>





lemma blocked_iff:
  "list_ex (has_responses st) (sorted_list_of_set (db_only csv db))
     \<longleftrightarrow> (\<exists>k\<in>db_only csv db. has_responses st k)"
  by (simp add: list_ex_iff set_gone)




section \<open>Deleting a person\<close>

text \<open>
  Neither \<^verbatim>\<open>delete_user\<close> nor \<^verbatim>\<open>sync_users\<close> changes a row of table
  eventresponse, whatever their outcome. A user to whom a response refers is not deleted
  by them: \<^verbatim>\<open>delete_user\<close> then ends with an integrity error and the database
  unchanged, and so does the delete phase of \<^verbatim>\<open>sync_users\<close> when such a user's id
  is only in the database. When either succeeds, no response referred to a user it
  deleted.
\<close>

lemma deleting_a_person_never_touches_responses:
  "responses (snd (delete_user uid st)) = responses st
   \<and> responses (fst (snd (sync_users csv_file st))) = responses st
   \<and> (map_of (users st) uid \<noteq> None \<and> has_responses st uid \<longrightarrow>
        delete_user uid st = (Inl IntegrityError, st))
   \<and> (fst (delete_user uid st) = Inr () \<longrightarrow>
        \<not> has_responses st uid \<and> map_of (users (snd (delete_user uid st))) uid = None)
   \<and> (mismatches csv (load_db_users st) = [] \<and> k \<in> db_only csv (load_db_users st)
        \<and> has_responses st k \<longrightarrow>
        sync_users (Some csv) st =
          (Inl IntegrityError, st,
           map Delete (sorted_list_of_set (db_only csv (load_db_users st)))))
   \<and> (\<forall>c. fst (sync_users (Some csv) st) = Inr c \<longrightarrow>
        (\<forall>k\<in>db_only csv (load_db_users st). \<not> has_responses st k))"
proof -
  have a: "responses (snd (delete_user uid st)) = responses st"
    by (simp add: delete_user_frame)
  have b: "responses (fst (snd (sync_users csv_file st))) = responses st"
    by (simp add: sync_users_frame)
  have c: "map_of (users st) uid \<noteq> None \<and> has_responses st uid \<longrightarrow>
        delete_user uid st = (Inl IntegrityError, st)"
    by (auto simp: delete_user_def commit_user_deletes_def)
  have "map_of (filter (\<lambda>(k, u). k \<noteq> uid) (users st)) uid = None"
    using map_of_filter_keys [of "{uid}" "users st" uid] by simp
  then have d: "fst (delete_user uid st) = Inr () \<longrightarrow>
        \<not> has_responses st uid \<and> map_of (users (snd (delete_user uid st))) uid = None"
    by (auto simp: delete_user_def commit_user_deletes_def split: option.splits if_splits)
  have e: "mismatches csv (load_db_users st) = [] \<and> k \<in> db_only csv (load_db_users st)
        \<and> has_responses st k \<longrightarrow>
        sync_users (Some csv) st =
          (Inl IntegrityError, st,
           map Delete (sorted_list_of_set (db_only csv (load_db_users st))))"
    unfolding load_db_users_def using sync_users_blocked [of csv st] blocked_iff [of st csv "users st"]
    by blast
  have f: "\<forall>c. fst (sync_users (Some csv) st) = Inr c \<longrightarrow>
        (\<forall>k\<in>db_only csv (load_db_users st). \<not> has_responses st k)"
    unfolding load_db_users_def
    by (cases rule: sync_users_outcomes [of csv st]) (auto simp: blocked_iff)
  from a b c d e f show ?thesis by blast
qed

lemma deleting_a_person_examples:
  "map_of (users st_yes) 7 \<noteq> None \<and> has_responses st_yes 7
   \<and> delete_user 7 st_yes = (Inl IntegrityError, st_yes)
   \<and> fst (delete_user 7 st_demo) = Inr ()
   \<and> \<not> has_responses st_demo 7 \<and> map_of (users (snd (delete_user 7 st_demo))) 7 = None
   \<and> mismatches [] (load_db_users st_yes) = [] \<and> 7 \<in> db_only [] (load_db_users st_yes)
   \<and> sync_users (Some []) st_yes =
       (Inl IntegrityError, st_yes, map Delete (sorted_list_of_set (db_only [] (load_db_users st_yes))))
   \<and> responses (fst (snd (sync_users (Some csv_roster) st_roster))) = responses st_roster"
proof -
  have a: "map_of (users st_yes) 7 \<noteq> None \<and> has_responses st_yes 7"
    by code_simp
  have b: "fst (delete_user 7 st_demo) = Inr ()"
    by code_simp
  have c: "mismatches [] (load_db_users st_yes) = [] \<and> 7 \<in> db_only [] (load_db_users st_yes)"
    by code_simp
  show ?thesis
    using a b c
      deleting_a_person_never_touches_responses [of 7 st_yes "Some csv_roster" "[]" 7]
      deleting_a_person_never_touches_responses [of 7 st_demo "Some csv_roster" "[]" 7]
      deleting_a_person_never_touches_responses [of 7 st_roster "Some csv_roster" "[]" 7]
    by blast
qed

text \<open>
  Claim C10. The claim has a person deleted while the responses that refer to that person
  stay behind. The code does not get that far. In the example database with Alice's Yes,
  \<^verbatim>\<open>delete_user\<close> for Alice ends with the integrity error and Alice stays in table
  user; a synchronisation with an empty roster ends in the same way at the commit of its
  delete phase.
\<close>

theorem referenced_person_is_not_deleted:
  "has_responses st_yes 7 \<and> map_of (users st_yes) 7 = Some alice
   \<and> delete_user 7 st_yes = (Inl IntegrityError, st_yes)
   \<and> sync_users (Some []) st_yes = (Inl IntegrityError, st_yes, [Delete 7])"
  by code_simp

section \<open>The synchronisation script as the operator runs it\<close>

text \<open>What a backup is: a copy of the database under the timestamp, the database untouched.\<close>

lemma backup_db_keeps_copy:
  "map_of (w_backups (backup_db ts w)) ts = Some (w_db w) \<and> w_db (backup_db ts w) = w_db w"
  by (simp add: backup_db_def update_conv')

text \<open>
  Claim C8, as amended. The main block of \<^verbatim>\<open>sync_users.py\<close> takes the path of the
  CSV file from its first argument or the default and calls \<^verbatim>\<open>sync_users\<close> at
  once. It reads nothing from standard input, so what the operator types changes nothing;
  it has no flag that stands for a confirmation; and it makes no backup copy of the
  database. The database afterwards is the one \<^verbatim>\<open>sync_users\<close> returns.
\<close>

theorem sync_main_asks_nothing_and_keeps_no_copy:
  "w_stdin (snd (sync_main argv w)) = w_stdin w
   \<and> w_backups (snd (sync_main argv w)) = w_backups w
   \<and> w_csv (snd (sync_main argv w)) = w_csv w
   \<and> w_db (snd (sync_main argv w)) = fst (snd (sync_users (w_csv w (csv_path argv)) (w_db w)))
   \<and> fst (sync_main argv w) = fst (sync_users (w_csv w (csv_path argv)) (w_db w))
   \<and> w_db (snd (sync_main argv (w\<lparr>w_stdin := typed\<rparr>))) = w_db (snd (sync_main argv w))"
  by (simp add: sync_main_def split: prod.splits)

theorem sync_main_asks_nothing_and_keeps_no_copy_witness:
  "w_stdin (snd (sync_main [''sync_users.py''] w_demo)) = []
   \<and> w_backups (snd (sync_main [''sync_users.py''] w_demo)) = []
   \<and> w_db (snd (sync_main [''sync_users.py''] (w_demo\<lparr>w_stdin := [''n'']\<rparr>))) =
       w_db (snd (sync_main [''sync_users.py''] w_demo))"
  using sync_main_asks_nothing_and_keeps_no_copy [of "[''sync_users.py'']" w_demo "[''n'']"]
  by (simp add: w_demo_def)

text \<open>
  Against claim C8 as it was stated: started with no argument and with nothing typed,
  the script deletes Carol, updates Bob and inserts Ann, and there is no backup copy.
\<close>

theorem sync_main_runs_unprompted:
  "w_stdin w_demo = [] \<and> csv_path [''sync_users.py''] = ''./users.csv''
   \<and> users (w_db w_demo) = [(2, bob), (3, carol)]
   \<and> users (w_db (snd (sync_main [''sync_users.py''] w_demo))) =
       [(2, bob\<lparr>u_role := ''captain''\<rparr>), (1, ann)]
   \<and> w_backups (snd (sync_main [''sync_users.py''] w_demo)) = []"
  by code_simp

end
